theory Spec2Isabelle
  imports Complex_Main
begin

section \<open>Python arithmetic used by the lunar phase modules\<close>

text \<open>
  The modules \<^verbatim>\<open>phase_symmetry_offline.py\<close> and \<^verbatim>\<open>phase_symmetry.py\<close> compute with
  Python floats. The embedding reads every float as the real number it denotes and every
  decimal literal as its decimal value, so all statements below are statements of exact
  arithmetic; rounding error of the binary floating point format is not modelled.
  Python integers are unbounded and become \<^typ>\<open>int\<close>.
\<close>

text \<open>\<^verbatim>\<open>int(x)\<close> on a float truncates towards zero.\<close>

definition py_int :: "real \<Rightarrow> int" where
  "py_int x = (if 0 \<le> x then \<lfloor>x\<rfloor> else \<lceil>x\<rceil>)"

text \<open>
  \<^verbatim>\<open>x % 360\<close> on a float: the remainder takes the sign of the (positive) divisor, that
  is \<open>x - 360 * floor (x / 360)\<close>. Every \<^verbatim>\<open>%\<close> of the two modules has the literal
  divisor 360, so no division by zero can be raised.
\<close>

definition mod360 :: "real \<Rightarrow> real" where
  "mod360 x = x - 360 * of_int \<lfloor>x / 360\<rfloor>"

text \<open>\<^verbatim>\<open>round(x, 2)\<close>: to the nearest multiple of 1/100, a tie going to the even one.\<close>

definition round2 :: "real \<Rightarrow> real" where
  "round2 x =
     (let y = x * 100; f = \<lfloor>y\<rfloor>; r = y - of_int f
      in of_int (if r < 1 / 2 then f
                 else if 1 / 2 < r then f + 1
                 else if even f then f else f + 1) / 100)"

section \<open>Calendar converter\<close>

text \<open>
  \<^verbatim>\<open>julian_day(year, month, day)\<close> of \<^verbatim>\<open>phase_symmetry_offline.py\<close>, lines 12 to 20.
  \<^verbatim>\<open>year / 100\<close> and \<^verbatim>\<open>A / 4\<close> are true divisions followed by \<^verbatim>\<open>int\<close>.
\<close>

definition julian_day :: "int \<Rightarrow> int \<Rightarrow> int \<Rightarrow> real" where
  "julian_day year month day =
     (let year' = (if month \<le> 2 then year - 1 else year);
          month' = (if month \<le> 2 then month + 12 else month);
          A = py_int (of_int year' / 100);
          B = 2 - A + py_int (of_int A / 4)
      in of_int (py_int (365.25 * of_int (year' + 4716)))
         + of_int (py_int (30.6001 * of_int (month' + 1)))
         + of_int day + of_int B - 1524.5)"

section \<open>Phase angle model\<close>

text \<open>\<^verbatim>\<open>lunar_phase_angle(jd)\<close> of \<^verbatim>\<open>phase_symmetry_offline.py\<close>, lines 22 to 35.\<close>

definition sun_mean_longitude :: "real \<Rightarrow> real" where
  "sun_mean_longitude T = mod360 (280.46646 + T * (36000.76983 + 0.0003032 * T))"

definition moon_mean_longitude :: "real \<Rightarrow> real" where
  "moon_mean_longitude T = mod360 (218.3164477 + T * (481267.88123421 - 0.0015786 * T))"

definition lunar_phase_angle :: "real \<Rightarrow> real" where
  "lunar_phase_angle jd =
     (let T = (jd - 2451545.0) / 36525.0
      in mod360 (moon_mean_longitude T - sun_mean_longitude T))"

section \<open>Hexagram classifier\<close>

text \<open>
  The six labels are the characters U+9707 (zhen), U+5151 (dui), U+4E7E (qian),
  U+5DFD (xun), U+826E (gen), U+5764 (kun); the letters are U+5E9A (geng), U+4E01 (ding),
  U+7532 (jia), U+8F9B (xin), U+4E19 (bing), U+4E59 (yi) and U+7678 (gui). They are used
  as tags only, so each is a constructor.
\<close>

datatype hexagram_label = Zhen | Dui | Qian | Xun | Gen | Kun

datatype tiangan_label = Geng | Ding | Jia | Xin | Bing | Yi | Gui

datatype py_error = KeyError

text \<open>
  The dictionaries \<^verbatim>\<open>bounds\<close> and \<^verbatim>\<open>mapping\<close> of \<^verbatim>\<open>assign_nayin_hexagram\<close>, as
  association lists in insertion order, which is the order in which \<^verbatim>\<open>bounds.items()\<close>
  is iterated. First the closed-form module \<^verbatim>\<open>phase_symmetry_offline.py\<close>.
\<close>

definition bounds :: "(string \<times> int \<times> int) list" where
  "bounds =
     [(''zhen'', 15, 45),
      (''dui'', 75, 105),
      (''qian'', 165, 195),
      (''gen'', 255, 285),
      (''xun'', 215, 245),
      (''kun'', 315, 345)]"

definition mapping :: "(string \<times> hexagram_label \<times> tiangan_label) list" where
  "mapping =
     [(''zhen'', Zhen, Geng),
      (''dui'', Dui, Ding),
      (''qian'', Qian, Jia),
      (''xun'', Xun, Xin),
      (''gen'', Gen, Bing),
      (''kun'', Kun, Yi)]"

text \<open>The same two tables in the ephemeris module \<^verbatim>\<open>phase_symmetry.py\<close>.\<close>

definition bounds_eph :: "(string \<times> int \<times> int) list" where
  "bounds_eph =
     [(''zhen'', 30, 60),
      (''dui'', 120, 150),
      (''qian'', 165, 195),
      (''gen'', 210, 240),
      (''xun'', 300, 330),
      (''kun'', 345, 15)]"

definition mapping_eph :: "(string \<times> hexagram_label \<times> tiangan_label) list" where
  "mapping_eph =
     [(''zhen'', Zhen, Xin),
      (''dui'', Dui, Ding),
      (''qian'', Qian, Jia),
      (''xun'', Xun, Gui),
      (''gen'', Gen, Bing),
      (''kun'', Kun, Yi)]"

text \<open>
  The loop \<^verbatim>\<open>for name, (low, high) in bounds.items()\<close>: the first window with
  \<^verbatim>\<open>low <= phi <= high\<close> returns \<^verbatim>\<open>mapping[name]\<close>, which raises \<^verbatim>\<open>KeyError\<close> for
  a name without an entry; when the loop ends the result is \<^verbatim>\<open>(None, None)\<close>.
\<close>

fun scan_windows ::
  "(string \<times> hexagram_label \<times> tiangan_label) list \<Rightarrow> (string \<times> int \<times> int) list \<Rightarrow> real
     \<Rightarrow> py_error + (hexagram_label option \<times> tiangan_label option)" where
  "scan_windows mp [] phi = Inr (None, None)"
| "scan_windows mp ((name, low, high) # rest) phi =
     (if of_int low \<le> phi \<and> phi \<le> of_int high
      then (case map_of mp name of
              None \<Rightarrow> Inl KeyError
            | Some (h, t) \<Rightarrow> Inr (Some h, Some t))
      else scan_windows mp rest phi)"

definition assign_nayin_hexagram ::
  "real \<Rightarrow> py_error + (hexagram_label option \<times> tiangan_label option)" where
  "assign_nayin_hexagram phi = scan_windows mapping bounds phi"

definition assign_nayin_hexagram_eph ::
  "real \<Rightarrow> py_error + (hexagram_label option \<times> tiangan_label option)" where
  "assign_nayin_hexagram_eph phi = scan_windows mapping_eph bounds_eph phi"

section \<open>Visibility classifier, simplified variant\<close>

definition is_evening_or_morning_simplified :: "real \<Rightarrow> string" where
  "is_evening_or_morning_simplified phase_angle =
     (if 350 < phase_angle \<or> phase_angle < 10 then ''none''
      else if 170 \<le> phase_angle \<and> phase_angle \<le> 190 then ''both''
      else if phase_angle < 180 then ''evening''
      else ''morning'')"

section \<open>Annotator\<close>

text \<open>
  The argument \<^verbatim>\<open>date_utc\<close> is a Python \<^verbatim>\<open>datetime\<close>, of which only year, month and
  day are read. The returned dictionary is a record; its \<^verbatim>\<open>date\<close> entry, the text
  produced by \<^verbatim>\<open>strftime\<close>, is kept as the unformatted triple of year, month and day.
\<close>

record datetime =
  year :: int
  month :: int
  day :: int

record lunar_state =
  date :: "int \<times> int \<times> int"
  phase_angle :: real
  sym_offset_from_full :: real
  hexagram :: "hexagram_label option"
  tiangan :: "tiangan_label option"
  visibility :: string
  is_pivot :: bool
  cycle_half :: string

text \<open>Line 104 (line 132 of \<^verbatim>\<open>phase_symmetry.py\<close>): the offset from full moon.\<close>

definition sym_offset :: "real \<Rightarrow> real" where
  "sym_offset phi = mod360 (phi - 180 + 180) - 180"

text \<open>Lines 110 to 114: the pivot flag.\<close>

definition pivot_flag :: "real \<Rightarrow> bool" where
  "pivot_flag phi =
     (if 165 \<le> phi \<and> phi \<le> 195 then True
      else if phi \<le> 15 \<or> 345 \<le> phi then True
      else False)"

definition annotate_lunar_state :: "datetime \<Rightarrow> py_error + lunar_state" where
  "annotate_lunar_state date_utc =
     (let jd = julian_day (year date_utc) (month date_utc) (day date_utc);
          phi = lunar_phase_angle jd
      in case assign_nayin_hexagram phi of
           Inl e \<Rightarrow> Inl e
         | Inr (hx, tg) \<Rightarrow>
             Inr \<lparr> date = (year date_utc, month date_utc, day date_utc),
                   phase_angle = round2 phi,
                   sym_offset_from_full = round2 (sym_offset phi),
                   hexagram = hx,
                   tiangan = tg,
                   visibility = is_evening_or_morning_simplified phi,
                   is_pivot = pivot_flag phi,
                   cycle_half = (if phi < 180 then ''upper'' else ''lower'') \<rparr>)"

section \<open>Calendar dates\<close>

text \<open>
  The vocabulary of the statement about the calendar converter: the proleptic Gregorian
  calendar (the one of Python's \<^verbatim>\<open>datetime\<close>), with its leap years, the length of
  each month, the dates that exist, and the order of dates.
\<close>

definition is_leap :: "int \<Rightarrow> bool" where
  "is_leap y = (y mod 4 = 0 \<and> (y mod 100 \<noteq> 0 \<or> y mod 400 = 0))"

definition days_in_month :: "int \<Rightarrow> int \<Rightarrow> int" where
  "days_in_month y m =
     (if m = 2 then (if is_leap y then 29 else 28)
      else if m = 4 \<or> m = 6 \<or> m = 9 \<or> m = 11 then 30
      else 31)"

definition valid_date :: "int \<Rightarrow> int \<Rightarrow> int \<Rightarrow> bool" where
  "valid_date y m d = (1 \<le> m \<and> m \<le> 12 \<and> 1 \<le> d \<and> d \<le> days_in_month y m)"

definition date_before :: "int \<times> int \<times> int \<Rightarrow> int \<times> int \<times> int \<Rightarrow> bool" where
  "date_before a b =
     (case a of (y1, m1, d1) \<Rightarrow> case b of (y2, m2, d2) \<Rightarrow>
        y1 < y2 \<or> (y1 = y2 \<and> (m1 < m2 \<or> (m1 = m2 \<and> d1 < d2))))"

text \<open>
  Auxiliary terms of the analysis of \<open>julian_day\<close>: the year and the month after the
  shift of January and February to months 13 and 14 of the year before, the integer part
  contributed by the shifted year and by the shifted month, and their sum with the day.
\<close>

definition year_term :: "int \<Rightarrow> int" where
  "year_term Y = (1461 * (Y + 4716)) div 4 + 2 - Y div 100 + Y div 400"

definition month_term :: "int \<Rightarrow> int" where
  "month_term M = (306001 * (M + 1)) div 10000"

definition shifted_month :: "int \<Rightarrow> int" where
  "shifted_month m = (if m \<le> 2 then m + 12 else m)"

definition shifted_year :: "int \<Rightarrow> int \<Rightarrow> int" where
  "shifted_year y m = (if m \<le> 2 then y - 1 else y)"

definition day_number :: "int \<Rightarrow> int \<Rightarrow> int \<Rightarrow> int" where
  "day_number y m d = year_term (shifted_year y m) + month_term (shifted_month m) + d"

section \<open>Properties of the remainder modulo 360\<close>



lemma mod360_id:
  assumes "0 \<le> x" and "x < 360"
  shows "mod360 x = x"
proof -
  from assms have "\<lfloor>x / 360\<rfloor> = 0" by (simp add: floor_eq_iff)
  then show ?thesis by (simp add: mod360_def)
qed

text \<open>Reflection \<open>x \<mapsto> 360 - x\<close>: off the multiples of 360 the remainder is reflected too.\<close>

lemma mod360_reflect:
  assumes "mod360 x \<noteq> 0"
  shows "mod360 (360 - x) = 360 - mod360 x"
proof -
  let ?q = "x / 360"
  have ne: "?q \<noteq> of_int \<lfloor>?q\<rfloor>"
  proof
    assume "?q = of_int \<lfloor>?q\<rfloor>"
    then have "x = 360 * of_int \<lfloor>?q\<rfloor>" by simp
    then have "mod360 x = 0" by (simp add: mod360_def)
    with assms show False by simp
  qed
  have "(360 - x) / 360 = - ?q + of_int 1" by (simp add: field_simps)
  then have "\<lfloor>(360 - x) / 360\<rfloor> = \<lfloor>- ?q\<rfloor> + 1" by (simp only: floor_add_int)
  moreover have "\<lfloor>- ?q\<rfloor> = - \<lceil>?q\<rceil>" by (simp add: ceiling_def)
  moreover have "\<lceil>?q\<rceil> = \<lfloor>?q\<rfloor> + 1" using ne by (simp add: ceiling_altdef)
  ultimately have "\<lfloor>(360 - x) / 360\<rfloor> = - \<lfloor>?q\<rfloor>" by linarith
  then show ?thesis by (simp add: mod360_def)
qed

text \<open>On a multiple of 360 both the point and its mirror image have remainder 0.\<close>

lemma mod360_zero_reflect:
  assumes "mod360 x = 0"
  shows "mod360 (360 - x) = 0"
proof -
  let ?k = "\<lfloor>x / 360\<rfloor>"
  from assms have x: "x = 360 * of_int ?k" by (simp add: mod360_def)
  have "(360 - x) / 360 = of_int (1 - ?k)" by (subst x) simp
  then have "\<lfloor>(360 - x) / 360\<rfloor> = 1 - ?k" by (metis floor_of_int)
  then show ?thesis using x by (simp add: mod360_def)
qed

lemma sym_offset_eq: "sym_offset phi = mod360 phi - 180"
  by (simp add: sym_offset_def)

section \<open>The symmetry offset\<close>

text \<open>
  Claim C1, as stated: \<open>sym_offset (180 + d) = - sym_offset (180 - d)\<close> for every real
  \<open>d\<close>. At \<open>d = 180\<close> the two arguments are 360 and 0, both offsets are \<open>-180\<close>, and
  the equation fails.
\<close>

theorem sym_offset_reflection_fails_at_180:
  "sym_offset (180 + 180) \<noteq> - sym_offset (180 - 180)"
  by (simp add: sym_offset_def mod360_def)

text \<open>
  Claim C1, amended: the reflection invariant holds for every real \<open>d\<close> for which
  \<open>180 + d\<close> is not a multiple of 360, that is, whenever \<open>(180 + d) % 360\<close> is not 0.
\<close>

theorem sym_offset_reflection:
  "mod360 (180 + d) \<noteq> 0 \<Longrightarrow> sym_offset (180 + d) = - sym_offset (180 - d)"
proof -
  assume a: "mod360 (180 + d) \<noteq> 0"
  have "180 - d = 360 - (180 + d)" by simp
  then have "mod360 (180 - d) = 360 - mod360 (180 + d)"
    using mod360_reflect [OF a] by simp
  then show ?thesis unfolding sym_offset_eq by linarith
qed

theorem sym_offset_reflection_witness:
  "mod360 (180 + 30) \<noteq> 0 \<and> sym_offset (180 + 30) = - sym_offset (180 - 30)"
  using sym_offset_reflection [of 30] by (simp add: mod360_def)

text \<open>
  The excluded values are exactly the ones where the invariant fails: there both offsets
  are \<open>-180\<close>.
\<close>

lemma sym_offset_at_new_moon:
  assumes "mod360 (180 + d) = 0"
  shows "sym_offset (180 + d) = - 180 \<and> sym_offset (180 - d) = - 180"
proof -
  have "180 - d = 360 - (180 + d)" by simp
  then have "mod360 (180 - d) = 0" using mod360_zero_reflect [OF assms] by simp
  with assms show ?thesis unfolding sym_offset_eq by simp
qed

text \<open>
  Claim C3, as stated: for \<open>phi\<close> in \<open>[0, 360)\<close> the offset lies in \<open>(-180, 180]\<close>. At
  \<open>phi = 0\<close> the offset is \<open>-180\<close>, outside that range.
\<close>

theorem sym_offset_range_fails_at_0:
  "(0::real) \<in> {0..<360} \<and> sym_offset 0 \<notin> {- 180<..180}"
  by (simp add: sym_offset_def mod360_def)

text \<open>
  Claim C3, amended: for every \<open>phi\<close> in \<open>[0, 360)\<close> the offset lies in the half-open
  range \<open>[-180, 180)\<close>, and it is 0 exactly when \<open>phi = 180\<close>.
\<close>

theorem sym_offset_range:
  "0 \<le> phi \<Longrightarrow> phi < 360 \<Longrightarrow>
     - 180 \<le> sym_offset phi \<and> sym_offset phi < 180 \<and> (sym_offset phi = 0 \<longleftrightarrow> phi = 180)"
  by (simp add: sym_offset_def mod360_id)

theorem sym_offset_range_witness:
  "(0::real) \<le> 180 \<and> (180::real) < 360 \<and> - 180 \<le> sym_offset 180 \<and> sym_offset 180 < 180
     \<and> sym_offset 180 = 0"
  using sym_offset_range [of 180] by simp

section \<open>Range of the phase angle\<close>


text \<open>Reducing the two longitudes first does not change the reduced difference.\<close>

lemma mod360_shift: "mod360 (x + 360 * of_int k) = mod360 x"
proof -
  have "(x + 360 * of_int k) / 360 = x / 360 + of_int k" by (simp add: field_simps)
  then have "\<lfloor>(x + 360 * of_int k) / 360\<rfloor> = \<lfloor>x / 360\<rfloor> + k" by (simp only: floor_add_int)
  then show ?thesis by (simp add: mod360_def algebra_simps)
qed

lemma mod360_diff: "mod360 (mod360 a - mod360 b) = mod360 (a - b)"
proof -
  have "mod360 a - mod360 b = (a - b) + 360 * of_int (\<lfloor>b / 360\<rfloor> - \<lfloor>a / 360\<rfloor>)"
    by (simp add: mod360_def algebra_simps)
  then show ?thesis by (simp only: mod360_shift)
qed

text \<open>
  The angle 0 is an output of the model: between the epoch and one century later the
  difference of the two mean longitudes passes through 0, so at some real Julian Day the
  phase angle is 0 and the offset computed from it is \<open>-180\<close>.
\<close>

lemma new_moon_angle_attained:
  "\<exists>jd. lunar_phase_angle jd = 0 \<and> sym_offset (lunar_phase_angle jd) = - 180"
proof -
  define D :: "real \<Rightarrow> real" where
    "D T = (218.3164477 + T * (481267.88123421 - 0.0015786 * T))
           - (280.46646 + T * (36000.76983 + 0.0003032 * T))" for T
  have cont: "continuous_on {0..1} D"
    unfolding D_def by (intro continuous_intros)
  have "D 0 \<le> 0" "0 \<le> D 1" by (simp_all add: D_def)
  then have "\<exists>T\<ge>0. T \<le> 1 \<and> D T = 0"
    using cont by (intro IVT') simp_all
  then obtain T where T: "D T = 0" by blast
  let ?jd = "2451545.0 + 36525.0 * T"
  have "(?jd - 2451545.0) / 36525.0 = T" by simp
  then have "lunar_phase_angle ?jd = mod360 (D T)"
    unfolding lunar_phase_angle_def Let_def moon_mean_longitude_def sun_mean_longitude_def D_def
    by (simp only: mod360_diff)
  then have "lunar_phase_angle ?jd = 0" by (simp add: T mod360_def)
  moreover from this have "sym_offset (lunar_phase_angle ?jd) = - 180"
    by (simp add: sym_offset_def mod360_def)
  ultimately show ?thesis by blast
qed

section \<open>The simplified visibility classifier\<close>

text \<open>
  Claim C5, as stated: the result is \<open>none\<close> when \<open>phi \<le> 10\<close> or \<open>phi \<ge> 350\<close>. The
  source tests \<open>phase_angle > 350 or phase_angle < 10\<close>, so at \<open>phi = 10\<close> the result
  is \<open>evening\<close>.
\<close>

theorem visibility_at_10_is_evening:
  "(10::real) \<in> {0..<360} \<and> (10::real) \<le> 10 \<and> is_evening_or_morning_simplified 10 = ''evening''"
  by (simp add: is_evening_or_morning_simplified_def)

text \<open>
  Claim C5, amended: the result is \<open>none\<close> when \<open>phi < 10\<close> or \<open>phi > 350\<close>, \<open>both\<close>
  when \<open>170 \<le> phi \<le> 190\<close>, \<open>evening\<close> when \<open>phi < 180\<close> and \<open>morning\<close> otherwise,
  tested in that order; so \<open>evening\<close> is returned exactly on \<open>[10, 170)\<close> and
  \<open>morning\<close> exactly on \<open>(190, 350]\<close>.
\<close>

theorem visibility_simplified_cases:
  "is_evening_or_morning_simplified phi =
     (if phi < 10 \<or> 350 < phi then ''none''
      else if 170 \<le> phi \<and> phi \<le> 190 then ''both''
      else if phi < 180 then ''evening'' else ''morning'')
   \<and> (is_evening_or_morning_simplified phi = ''none'' \<longleftrightarrow> phi < 10 \<or> 350 < phi)
   \<and> (is_evening_or_morning_simplified phi = ''both'' \<longleftrightarrow> 170 \<le> phi \<and> phi \<le> 190)
   \<and> (is_evening_or_morning_simplified phi = ''evening'' \<longleftrightarrow> 10 \<le> phi \<and> phi < 170)
   \<and> (is_evening_or_morning_simplified phi = ''morning'' \<longleftrightarrow> 190 < phi \<and> phi \<le> 350)"
  by (auto simp add: is_evening_or_morning_simplified_def)

section \<open>The hexagram classifier\<close>

text \<open>
  When every window name has an entry in the letter table, the scan never raises, it
  reports a gap exactly when no window holds the angle, and it never returns a label
  without a letter or a letter without a label.
\<close>

lemma scan_windows_total:
  "fst ` set bs \<subseteq> fst ` set mp \<Longrightarrow> \<exists>res. scan_windows mp bs phi = Inr res"
proof (induction bs)
  case Nil
  show ?case by simp
next
  case (Cons b bs)
  obtain name low high where b: "b = (name, low, high)" by (cases b) auto
  from Cons.prems b have "name \<in> fst ` set mp" by simp
  then obtain v where "map_of mp name = Some v"
    by (metis domD dom_map_of_conv_image_fst)
  with Cons b show ?case by (cases v) auto
qed

lemma scan_windows_none_iff:
  "fst ` set bs \<subseteq> fst ` set mp \<Longrightarrow>
     scan_windows mp bs phi = Inr (None, None)
       \<longleftrightarrow> (\<forall>(name, low, high) \<in> set bs. \<not> (of_int low \<le> phi \<and> phi \<le> of_int high))"
proof (induction bs)
  case Nil
  show ?case by simp
next
  case (Cons b bs)
  obtain name low high where b: "b = (name, low, high)" by (cases b) auto
  from Cons.prems b have "name \<in> fst ` set mp" by simp
  then obtain v where "map_of mp name = Some v"
    by (metis domD dom_map_of_conv_image_fst)
  with Cons b show ?case by (cases v) auto
qed

lemma scan_windows_paired:
  "scan_windows mp bs phi = Inr (h, t) \<Longrightarrow> (h = None \<longleftrightarrow> t = None)"
  by (induction bs) (auto split: if_splits option.splits)

lemma bounds_names: "fst ` set bounds \<subseteq> fst ` set mapping"
  by (simp add: bounds_def mapping_def)

lemma bounds_eph_names: "fst ` set bounds_eph \<subseteq> fst ` set mapping_eph"
  by (simp add: bounds_eph_def mapping_eph_def)

lemma assign_nayin_hexagram_Inr:
  obtains h t where "assign_nayin_hexagram phi = Inr (h, t)" and "h = None \<longleftrightarrow> t = None"
proof -
  obtain res where "scan_windows mapping bounds phi = Inr res"
    using scan_windows_total [OF bounds_names] by blast
  then obtain h t where r: "scan_windows mapping bounds phi = Inr (h, t)"
    by (cases res) auto
  then have "h = None \<longleftrightarrow> t = None" by (rule scan_windows_paired)
  with r that show thesis by (simp add: assign_nayin_hexagram_def)
qed

lemma assign_nayin_hexagram_eph_Inr:
  obtains h t where "assign_nayin_hexagram_eph phi = Inr (h, t)" and "h = None \<longleftrightarrow> t = None"
proof -
  obtain res where "scan_windows mapping_eph bounds_eph phi = Inr res"
    using scan_windows_total [OF bounds_eph_names] by blast
  then obtain h t where r: "scan_windows mapping_eph bounds_eph phi = Inr (h, t)"
    by (cases res) auto
  then have "h = None \<longleftrightarrow> t = None" by (rule scan_windows_paired)
  with r that show thesis by (simp add: assign_nayin_hexagram_eph_def)
qed

lemma assign_qian_iff:
  "assign_nayin_hexagram phi = Inr (Some Qian, t) \<longleftrightarrow> t = Some Jia \<and> 165 \<le> phi \<and> phi \<le> 195"
  by (auto simp add: assign_nayin_hexagram_def bounds_def mapping_def)

text \<open>
  Claim C2: \<open>phi = 0\<close> and \<open>phi = 360\<close> are both classified as kun, through a wrapping
  test. The ephemeris module declares the kun window as \<open>(345, 15)\<close>, commented as the
  window of 0/360 degrees, but the loop only tests \<open>low \<le> phi \<le> high\<close>, which no angle
  satisfies for that window: kun is never returned there, and 0 and 360 fall in a gap.
  In the closed-form module the kun window is \<open>(315, 345)\<close> and 0 and 360 fall in a gap
  as well.
\<close>

theorem kun_window_never_matches:
  "assign_nayin_hexagram_eph 0 = Inr (None, None)
   \<and> assign_nayin_hexagram_eph 360 = Inr (None, None)
   \<and> assign_nayin_hexagram_eph phi \<noteq> Inr (Some Kun, t)
   \<and> assign_nayin_hexagram 0 = Inr (None, None)
   \<and> assign_nayin_hexagram 360 = Inr (None, None)"
  by (auto simp add: assign_nayin_hexagram_eph_def bounds_eph_def mapping_eph_def
        assign_nayin_hexagram_def bounds_def)

text \<open>
  Claim C7: \<open>assign_nayin_hexagram\<close> always returns (it never raises), it returns
  \<open>(None, None)\<close> exactly when the angle lies in none of the six windows, and 60 degrees,
  between the zhen window and the dui window, is such a gap value.
\<close>

theorem assign_nayin_hexagram_gap:
  "(\<exists>res. assign_nayin_hexagram phi = Inr res)
   \<and> (assign_nayin_hexagram phi = Inr (None, None)
        \<longleftrightarrow> (\<forall>(name, low, high) \<in> set bounds. \<not> (of_int low \<le> phi \<and> phi \<le> of_int high)))
   \<and> assign_nayin_hexagram 60 = Inr (None, None)"
proof -
  have "assign_nayin_hexagram 60 = Inr (None, None)"
    by (simp add: assign_nayin_hexagram_def bounds_def)
  then show ?thesis
    unfolding assign_nayin_hexagram_def
    using scan_windows_total [OF bounds_names] scan_windows_none_iff [OF bounds_names] by blast
qed

theorem assign_nayin_hexagram_gap_witness:
  "(\<exists>res. assign_nayin_hexagram 30 = Inr res)
   \<and> assign_nayin_hexagram 30 \<noteq> Inr (None, None)
   \<and> assign_nayin_hexagram 50 = Inr (None, None)
   \<and> assign_nayin_hexagram 60 = Inr (None, None)"
  using assign_nayin_hexagram_gap [of 30] assign_nayin_hexagram_gap [of 50]
  by (simp add: bounds_def)

text \<open>
  Claim C10: the classifier returns either \<open>(None, None)\<close> or a label together with a
  letter, so in every record the hexagram field is null exactly when the tiangan field is.
\<close>

theorem hexagram_null_iff_tiangan_null:
  "(assign_nayin_hexagram phi = Inr (None, None)
      \<or> (\<exists>h t. assign_nayin_hexagram phi = Inr (Some h, Some t)))
   \<and> (\<exists>r. annotate_lunar_state d = Inr r \<and> (hexagram r = None \<longleftrightarrow> tiangan r = None))"
proof -
  obtain h t where a: "assign_nayin_hexagram phi = Inr (h, t)" "h = None \<longleftrightarrow> t = None"
    by (rule assign_nayin_hexagram_Inr)
  then have 1: "assign_nayin_hexagram phi = Inr (None, None)
      \<or> (\<exists>h t. assign_nayin_hexagram phi = Inr (Some h, Some t))"
    by (cases h; cases t) auto
  let ?phi = "lunar_phase_angle (julian_day (year d) (month d) (day d))"
  obtain h' t' where "assign_nayin_hexagram ?phi = Inr (h', t')" "h' = None \<longleftrightarrow> t' = None"
    by (rule assign_nayin_hexagram_Inr)
  then have "\<exists>r. annotate_lunar_state d = Inr r \<and> (hexagram r = None \<longleftrightarrow> tiangan r = None)"
    by (simp add: annotate_lunar_state_def Let_def)
  with 1 show ?thesis by simp
qed

text \<open>
  Claim C9: for every date the annotator returns a record, and if its hexagram field is
  qian then its pivot flag is set; the field is qian exactly when the phase angle is in
  the band from 165 to 195 degrees.
\<close>

theorem qian_implies_pivot:
  "\<exists>r. annotate_lunar_state d = Inr r
     \<and> (hexagram r = Some Qian \<longrightarrow> is_pivot r)
     \<and> (hexagram r = Some Qian \<longleftrightarrow>
          165 \<le> lunar_phase_angle (julian_day (year d) (month d) (day d))
          \<and> lunar_phase_angle (julian_day (year d) (month d) (day d)) \<le> 195)"
proof -
  let ?phi = "lunar_phase_angle (julian_day (year d) (month d) (day d))"
  obtain h t where b: "assign_nayin_hexagram ?phi = Inr (h, t)"
    by (rule assign_nayin_hexagram_Inr)
  have "h = Some Qian \<longleftrightarrow> 165 \<le> ?phi \<and> ?phi \<le> 195"
    using b assign_qian_iff [of ?phi t] assign_qian_iff [of ?phi "Some Jia"] by auto
  with b show ?thesis
    by (simp add: annotate_lunar_state_def Let_def pivot_flag_def)
qed

section \<open>The reference dates of March 727\<close>

text \<open>Evaluation helpers: a remainder and a rounding are fixed by their bracket.\<close>

lemma mod360_eqI:
  assumes "360 * of_int k \<le> x" and "x < 360 * of_int k + 360"
  shows "mod360 x = x - 360 * of_int k"
proof -
  from assms have "\<lfloor>x / 360\<rfloor> = k" by (simp add: floor_eq_iff field_simps)
  then show ?thesis by (simp add: mod360_def)
qed

lemma round2_eqI:
  assumes "of_int n \<le> x * 100" and "x * 100 < of_int n + 1 / 2"
  shows "round2 x = of_int n / 100"
proof -
  from assms have "\<lfloor>x * 100\<rfloor> = n" by (simp add: floor_eq_iff)
  with assms show ?thesis by (simp add: round2_def Let_def)
qed

text \<open>15 March 727: Julian Day, the two mean longitudes, the phase angle.\<close>

lemma jd_727_3_15: "julian_day 727 3 15 = 3973327 / 2"
  by (simp add: julian_day_def py_int_def)

lemma sun_727_3_15:
  "sun_mean_longitude (- 309921 / 24350) = 130180697768116107 / 370576562500000"
  unfolding sun_mean_longitude_def
  by (subst mod360_eqI [where k = "- 1273"]) simp_all

lemma moon_727_3_15:
  "moon_mean_longitude (- 309921 / 24350) = 919640711133822739 / 5929225000000000"
  unfolding moon_mean_longitude_def
  by (subst mod360_eqI [where k = "- 17015"]) simp_all

lemma phi_727_3_15:
  "lunar_phase_angle (julian_day 727 3 15) = 971270546843965027 / 5929225000000000"
proof -
  have T: "(3973327 / 2 - 2451545.0) / 36525.0 = (- 309921 / 24350 :: real)" by simp
  show ?thesis
    unfolding jd_727_3_15 lunar_phase_angle_def Let_def T sun_727_3_15 moon_727_3_15
    by (subst mod360_eqI [where k = "- 1"]) simp_all
qed

lemma round2_phi_727_3_15: "round2 (971270546843965027 / 5929225000000000) = 163.81"
  by (subst round2_eqI [where n = 16381]) simp_all

lemma round2_offset_727_3_15:
  "round2 (sym_offset (971270546843965027 / 5929225000000000)) = - 16.19"
  unfolding sym_offset_def
  apply (subst mod360_eqI [where k = 0])
    apply simp
   apply simp
  apply (subst round2_eqI [where n = "- 1619"])
    apply simp_all
  done

lemma annotate_727_3_15:
  "annotate_lunar_state \<lparr>year = 727, month = 3, day = 15\<rparr> =
     Inr \<lparr>date = (727, 3, 15), phase_angle = 163.81, sym_offset_from_full = - 16.19,
          hexagram = None, tiangan = None, visibility = ''evening'', is_pivot = False,
          cycle_half = ''upper''\<rparr>"
  unfolding annotate_lunar_state_def Let_def datetime.simps phi_727_3_15
    round2_phi_727_3_15 round2_offset_727_3_15
  by (simp add: assign_nayin_hexagram_def bounds_def is_evening_or_morning_simplified_def
        pivot_flag_def)

text \<open>
  Claim C6, as stated: for 15 March 727 the phase angle lies in \<open>[165, 195]\<close>, the pivot
  flag is set and the hexagram is qian. The mean-longitude model gives an angle below
  165 degrees for that date, so the date is no pivot day and falls in the gap between
  the dui window and the qian window.
\<close>

theorem annotate_727_3_15_not_qian:
  "\<not> isl (annotate_lunar_state \<lparr>year = 727, month = 3, day = 15\<rparr>)
   \<and> lunar_phase_angle (julian_day 727 3 15) < 165
   \<and> phase_angle (projr (annotate_lunar_state \<lparr>year = 727, month = 3, day = 15\<rparr>)) < 165
   \<and> \<not> is_pivot (projr (annotate_lunar_state \<lparr>year = 727, month = 3, day = 15\<rparr>))
   \<and> hexagram (projr (annotate_lunar_state \<lparr>year = 727, month = 3, day = 15\<rparr>)) \<noteq> Some Qian"
  unfolding annotate_727_3_15 phi_727_3_15 by simp

text \<open>
  Claim C6, amended: for 15 March 727 the annotator produces a record with phase angle
  163.81 (the unrounded angle lies between 163.81 and 163.82 degrees), pivot flag false,
  hexagram and letter null, visibility \<open>evening\<close> and cycle half \<open>upper\<close>, the angle
  being below 180.
\<close>

theorem annotate_727_3_15_record:
  "annotate_lunar_state \<lparr>year = 727, month = 3, day = 15\<rparr> =
     Inr \<lparr>date = (727, 3, 15), phase_angle = 163.81, sym_offset_from_full = - 16.19,
          hexagram = None, tiangan = None, visibility = ''evening'', is_pivot = False,
          cycle_half = ''upper''\<rparr>
   \<and> 163.81 < lunar_phase_angle (julian_day 727 3 15)
   \<and> lunar_phase_angle (julian_day 727 3 15) < 163.82"
  unfolding annotate_727_3_15 phi_727_3_15 by simp

text \<open>16 March 727, one day later: the angle is inside the qian window.\<close>

lemma jd_727_3_16: "julian_day 727 3 16 = 3973329 / 2"
  by (simp add: julian_day_def py_int_def)

lemma sun_727_3_16:
  "sun_mean_longitude (- 929761 / 73050) = 587456799751693621 / 1667594531250000"
  unfolding sun_mean_longitude_def
  by (subst mod360_eqI [where k = "- 1273"]) simp_all

lemma moon_727_3_16:
  "moon_mean_longitude (- 929761 / 73050) = 997766537044053021 / 5929225000000000"
  unfolding moon_mean_longitude_def
  by (subst mod360_eqI [where k = "- 17015"]) simp_all

lemma phi_727_3_16:
  "lunar_phase_angle (julian_day 727 3 16) = 9391970241342281317 / 53363025000000000"
proof -
  have T: "(3973329 / 2 - 2451545.0) / 36525.0 = (- 929761 / 73050 :: real)" by simp
  show ?thesis
    unfolding jd_727_3_16 lunar_phase_angle_def Let_def T sun_727_3_16 moon_727_3_16
    by (subst mod360_eqI [where k = "- 1"]) simp_all
qed

theorem qian_implies_pivot_witness:
  "\<exists>r. annotate_lunar_state \<lparr>year = 727, month = 3, day = 16\<rparr> = Inr r
     \<and> hexagram r = Some Qian \<and> is_pivot r"
proof -
  have "165 \<le> lunar_phase_angle (julian_day 727 3 16)
      \<and> lunar_phase_angle (julian_day 727 3 16) \<le> 195"
    unfolding phi_727_3_16 by simp
  then show ?thesis
    using qian_implies_pivot [of "\<lparr>year = 727, month = 3, day = 16\<rparr>"] by auto
qed

section \<open>Monotonicity of the calendar converter\<close>

text \<open>For a shifted year from 0 on, every truncation is a floor and the Julian Day is an integer minus 1524.5.\<close>

lemma py_int_nonneg: "0 \<le> x \<Longrightarrow> py_int x = \<lfloor>x\<rfloor>"
  by (simp add: py_int_def)

lemma year_floor: "\<lfloor>365.25 * real_of_int n\<rfloor> = (1461 * n) div 4"
proof -
  have "365.25 * real_of_int n = real_of_int (1461 * n) / real_of_int 4" by simp
  then show ?thesis by (simp only: floor_divide_of_int_eq)
qed

lemma month_floor: "\<lfloor>30.6001 * real_of_int n\<rfloor> = (306001 * n) div 10000"
proof -
  have "30.6001 * real_of_int n = real_of_int (306001 * n) / real_of_int 10000" by simp
  then show ?thesis by (simp only: floor_divide_of_int_eq)
qed

lemma cent_floor: "\<lfloor>real_of_int n / 100\<rfloor> = n div 100"
proof -
  have "real_of_int n / 100 = real_of_int n / real_of_int 100" by simp
  then show ?thesis by (simp only: floor_divide_of_int_eq)
qed

lemma quad_floor: "\<lfloor>real_of_int n / 4\<rfloor> = n div 4"
proof -
  have "real_of_int n / 4 = real_of_int n / real_of_int 4" by simp
  then show ?thesis by (simp only: floor_divide_of_int_eq)
qed

lemma julian_day_int:
  assumes "0 \<le> (if m \<le> 2 then y - 1 else y)" and "1 \<le> m"
  shows "julian_day y m d =
     of_int (year_term (if m \<le> 2 then y - 1 else y)
             + month_term (if m \<le> 2 then m + 12 else m) + d) - 1524.5"
proof -
  let ?Y = "if m \<le> 2 then y - 1 else y"
  let ?M = "if m \<le> 2 then m + 12 else m"
  have Y: "0 \<le> ?Y" by (rule assms(1))
  have M: "0 \<le> ?M + 1" using assms(2) by simp
  have A: "py_int (of_int ?Y / 100) = ?Y div 100"
    using Y by (simp only: cent_floor [symmetric] py_int_def) simp
  have "0 \<le> ?Y div 100" using Y by (simp add: pos_imp_zdiv_nonneg_iff)
  then have B: "py_int (of_int (?Y div 100) / 4) = ?Y div 400"
    by (simp add: py_int_def quad_floor div_mult2_eq [symmetric])
  have "0 \<le> 365.25 * real_of_int (?Y + 4716)" using Y by simp
  then have C: "py_int (365.25 * of_int (?Y + 4716)) = (1461 * (?Y + 4716)) div 4"
    by (simp only: py_int_nonneg year_floor)
  have "0 \<le> 30.6001 * real_of_int (?M + 1)" using M by simp
  then have D: "py_int (30.6001 * of_int (?M + 1)) = (306001 * (?M + 1)) div 10000"
    by (simp only: py_int_nonneg month_floor)
  show ?thesis
    unfolding julian_day_def Let_def A B C D year_term_def month_term_def
    by simp
qed

lemma year_quarter: "(1461 * (Y + 4716)) div 4 = 365 * Y + Y div 4 + 1722519" for Y :: int
proof -
  have "1461 * (Y + 4716) = Y + (365 * Y + 1722519) * 4" by simp
  then have "(1461 * (Y + 4716)) div 4 = (Y + (365 * Y + 1722519) * 4) div 4" by simp
  also have "\<dots> = (365 * Y + 1722519) + Y div 4" by (simp only: div_mult_self1)
  finally show ?thesis by simp
qed

lemma year_term_alt: "year_term Y = 365 * Y + Y div 4 - Y div 100 + Y div 400 + 1722521"
  by (simp add: year_term_def year_quarter)

lemma div_succ:
  fixes Y n :: int
  assumes n: "1 < n"
  shows "(Y + 1) div n = Y div n + (if (Y + 1) mod n = 0 then 1 else 0)"
proof -
  let ?q = "Y div n" and ?r = "Y mod n"
  have r: "0 \<le> ?r" "?r < n" using n by simp_all
  have Y: "Y = n * ?q + ?r" by simp
  show ?thesis
  proof (cases "?r + 1 < n")
    case True
    have e: "Y + 1 = n * ?q + (?r + 1)" by simp
    have "(Y + 1) div n = ?q" using e r True by (intro int_div_pos_eq [where r = "?r + 1"]) simp_all
    moreover have "(Y + 1) mod n = ?r + 1" using e r True by (intro int_mod_pos_eq [where q = ?q]) simp_all
    ultimately show ?thesis using r by simp
  next
    case False
    with r have rn: "?r + 1 = n" by simp
    have "Y + 1 = n * ?q + (?r + 1)" by simp
    then have e: "Y + 1 = n * (?q + 1) + 0" unfolding rn by (simp add: algebra_simps)
    have "(Y + 1) div n = ?q + 1" using e n by (intro int_div_pos_eq [where r = 0]) simp_all
    moreover have "(Y + 1) mod n = 0" using e n by (intro int_mod_pos_eq [where q = "?q + 1"]) simp_all
    ultimately show ?thesis by simp
  qed
qed

lemma mod_400_100: "n mod 400 = 0 \<Longrightarrow> n mod 100 = 0" for n :: int
proof -
  assume "n mod 400 = 0"
  then have "400 dvd n" by (simp add: mod_eq_0_iff_dvd)
  moreover have "(100::int) dvd 400" by simp
  ultimately have "100 dvd n" by (rule dvd_trans [rotated])
  then show ?thesis by (simp add: mod_eq_0_iff_dvd)
qed

lemma mod_100_4: "n mod 100 = 0 \<Longrightarrow> n mod 4 = 0" for n :: int
proof -
  assume "n mod 100 = 0"
  then have "100 dvd n" by (simp add: mod_eq_0_iff_dvd)
  moreover have "(4::int) dvd 100" by simp
  ultimately have "4 dvd n" by (rule dvd_trans [rotated])
  then show ?thesis by (simp add: mod_eq_0_iff_dvd)
qed

lemma leap_count:
  fixes Y q4 q100 q400 k :: int
  assumes "c \<Longrightarrow> b" and "b \<Longrightarrow> a"
  shows "365 * (Y + 1) + (q4 + (if a then 1 else 0)) - (q100 + (if b then 1 else 0))
           + (q400 + (if c then 1 else 0)) + k
         = 365 * Y + q4 - q100 + q400 + k + 365 + (if a \<and> (\<not> b \<or> c) then 1 else 0)"
  using assms by (cases a; cases b; cases c) simp_all

lemma year_term_step:
  "year_term (Y + 1) = year_term Y + 365 + (if is_leap (Y + 1) then 1 else 0)"
proof -
  have 4: "(Y + 1) div 4 = Y div 4 + (if (Y + 1) mod 4 = 0 then 1 else 0)"
    by (rule div_succ) simp
  have 100: "(Y + 1) div 100 = Y div 100 + (if (Y + 1) mod 100 = 0 then 1 else 0)"
    by (rule div_succ) simp
  have 400: "(Y + 1) div 400 = Y div 400 + (if (Y + 1) mod 400 = 0 then 1 else 0)"
    by (rule div_succ) simp
  show ?thesis
    unfolding year_term_alt is_leap_def 4 100 400
    by (rule leap_count [OF mod_400_100 mod_100_4])
qed

lemma year_term_mono_aux: "year_term Y \<le> year_term (Y + int n)"
proof (induction n)
  case 0
  show ?case by simp
next
  case (Suc n)
  have a: "year_term Y \<le> year_term (Y + int n)" by (rule Suc.IH)
  have b: "year_term (Y + int n) \<le> year_term (Y + int n + 1)"
    by (simp only: year_term_step) simp
  have c: "Y + int (Suc n) = Y + int n + 1" by simp
  show ?case unfolding c using a b by (rule order_trans)
qed

lemma year_term_mono: "Y \<le> Y' \<Longrightarrow> year_term Y \<le> year_term Y'"
  using year_term_mono_aux [of Y "nat (Y' - Y)"] by simp

lemma month_term_mono: "M \<le> M' \<Longrightarrow> month_term M \<le> month_term M'"
  unfolding month_term_def by (rule zdiv_mono1) simp_all

text \<open>Day counts before each month, March to February.\<close>

lemma month_term_values:
  "month_term 3 = 122" "month_term 4 = 153" "month_term 5 = 183" "month_term 6 = 214"
  "month_term 7 = 244" "month_term 8 = 275" "month_term 9 = 306" "month_term 10 = 336"
  "month_term 11 = 367" "month_term 12 = 397" "month_term 13 = 428" "month_term 14 = 459"
  by (simp_all add: month_term_def)

lemma month_cases:
  assumes "1 \<le> m" "m \<le> 12"
  shows "m = 1 \<or> m = 2 \<or> m = 3 \<or> m = 4 \<or> m = 5 \<or> m = 6 \<or> m = 7 \<or> m = 8 \<or> m = 9
     \<or> m = 10 \<or> m = 11 \<or> m = (12::int)"
  using assms by arith

text \<open>A month other than February ends where the next one begins.\<close>

lemma month_term_next:
  assumes "1 \<le> m" "m \<le> 12" "m \<noteq> 2"
  shows "month_term (shifted_month m) + days_in_month y m = month_term (shifted_month m + 1)"
  using month_cases [OF assms(1,2)] assms(3)
  by (auto simp add: shifted_month_def days_in_month_def month_term_def)

lemma month_term_lower: "1 \<le> m \<Longrightarrow> m \<le> 12 \<Longrightarrow> 122 \<le> month_term (shifted_month m)"
  using month_term_mono [of 3 "shifted_month m"]
  by (simp add: month_term_values shifted_month_def split: if_splits)

lemma julian_day_day_number:
  assumes "1 \<le> y" and "1 \<le> m"
  shows "julian_day y m d = of_int (day_number y m d) - 1524.5"
proof -
  from assms(1) have "0 \<le> (if m \<le> 2 then y - 1 else y)" by simp
  from julian_day_int [OF this assms(2)] show ?thesis
    by (simp only: day_number_def shifted_year_def shifted_month_def)
qed

lemma month_end_bound:
  assumes "1 \<le> m" "m \<le> 12" "d \<le> days_in_month y m"
  shows "month_term (shifted_month m) + d
           \<le> 487 + (if is_leap (shifted_year y m + 1) then 1 else 0)"
proof (cases "m = 2")
  case True
  with assms(3) show ?thesis
    by (auto simp add: shifted_month_def shifted_year_def days_in_month_def month_term_values
          split: if_splits)
next
  case False
  have "shifted_month m + 1 \<le> 14" using assms(1,2) False by (simp add: shifted_month_def)
  then have "month_term (shifted_month m + 1) \<le> month_term 14" by (rule month_term_mono)
  moreover have "month_term (shifted_month m) + days_in_month y m = month_term (shifted_month m + 1)"
    using assms(1,2) False by (rule month_term_next)
  ultimately show ?thesis using assms(3) by (simp add: month_term_values)
qed

lemma later_year:
  assumes Y: "shifted_year y1 m1 < shifted_year y2 m2"
    and v1: "1 \<le> m1" "m1 \<le> 12" "d1 \<le> days_in_month y1 m1"
    and v2: "1 \<le> m2" "m2 \<le> 12" "1 \<le> d2"
  shows "day_number y1 m1 d1 < day_number y2 m2 d2"
proof -
  let ?Y1 = "shifted_year y1 m1" and ?Y2 = "shifted_year y2 m2"
  let ?l = "if is_leap (?Y1 + 1) then 1 else (0::int)"
  have "month_term (shifted_month m1) + d1 \<le> 487 + ?l" using v1 by (rule month_end_bound)
  moreover have "year_term (?Y1 + 1) \<le> year_term ?Y2" using Y by (intro year_term_mono) simp
  moreover have "year_term (?Y1 + 1) = year_term ?Y1 + 365 + ?l" by (rule year_term_step)
  moreover have "122 \<le> month_term (shifted_month m2)" using v2(1,2) by (rule month_term_lower)
  ultimately show ?thesis using v2(3) unfolding day_number_def by linarith
qed

lemma later_month:
  assumes Y: "shifted_year y1 m1 = shifted_year y2 m2"
    and M: "shifted_month m1 < shifted_month m2"
    and v1: "1 \<le> m1" "m1 \<le> 12" "d1 \<le> days_in_month y1 m1"
    and v2: "1 \<le> m2" "m2 \<le> 12" "1 \<le> d2"
  shows "day_number y1 m1 d1 < day_number y2 m2 d2"
proof -
  have "shifted_month m2 \<le> 14" using v2(1,2) by (simp add: shifted_month_def)
  with M have "m1 \<noteq> 2" by (auto simp add: shifted_month_def)
  with v1(1,2) have "month_term (shifted_month m1) + days_in_month y1 m1 = month_term (shifted_month m1 + 1)"
    by (rule month_term_next)
  moreover have "month_term (shifted_month m1 + 1) \<le> month_term (shifted_month m2)"
    using M by (intro month_term_mono) simp
  ultimately show ?thesis using v1(3) v2(3) unfolding day_number_def Y by linarith
qed

lemma shifted_order:
  assumes "date_before (y1, m1, d1) (y2, m2, d2)"
    and "1 \<le> m1" "m1 \<le> 12" "1 \<le> m2" "m2 \<le> 12"
  shows "shifted_year y1 m1 < shifted_year y2 m2
     \<or> (shifted_year y1 m1 = shifted_year y2 m2
          \<and> (shifted_month m1 < shifted_month m2 \<or> (shifted_month m1 = shifted_month m2 \<and> d1 < d2)))"
  using assms unfolding date_before_def shifted_year_def shifted_month_def
  by (auto split: if_splits)

lemma day_number_mono:
  assumes "valid_date y1 m1 d1" "valid_date y2 m2 d2" "date_before (y1, m1, d1) (y2, m2, d2)"
  shows "day_number y1 m1 d1 < day_number y2 m2 d2"
proof -
  from assms(1) have v1: "1 \<le> m1" "m1 \<le> 12" "d1 \<le> days_in_month y1 m1"
    by (simp_all add: valid_date_def)
  from assms(2) have v2: "1 \<le> m2" "m2 \<le> 12" "1 \<le> d2"
    by (simp_all add: valid_date_def)
  from shifted_order [OF assms(3) v1(1,2) v2(1,2)]
  consider (year) "shifted_year y1 m1 < shifted_year y2 m2"
    | (month) "shifted_year y1 m1 = shifted_year y2 m2" "shifted_month m1 < shifted_month m2"
    | (day) "shifted_year y1 m1 = shifted_year y2 m2" "shifted_month m1 = shifted_month m2" "d1 < d2"
    by blast
  then show ?thesis
  proof cases
    case year
    then show ?thesis using v1 v2 by (rule later_year)
  next
    case month
    then show ?thesis using v1 v2 by (rule later_month)
  next
    case day
    then show ?thesis by (simp add: day_number_def)
  qed
qed

text \<open>
  Claim C8, amended: on the dates of the proleptic Gregorian calendar from year 1 on
  (the years a Python \<^verbatim>\<open>datetime\<close> can hold), \<open>julian_day\<close> is strictly monotonic:
  an earlier valid date has a smaller Julian Day than a later valid date.
\<close>

theorem julian_day_strictly_monotonic:
  assumes "1 \<le> y1" and "valid_date y1 m1 d1" and "valid_date y2 m2 d2"
    and "date_before (y1, m1, d1) (y2, m2, d2)"
  shows "julian_day y1 m1 d1 < julian_day y2 m2 d2"
proof -
  from assms(4) have "y1 \<le> y2" by (auto simp add: date_before_def)
  with assms(1) have y2: "1 \<le> y2" by simp
  from assms(2,3) have m: "1 \<le> m1" "1 \<le> m2" by (simp_all add: valid_date_def)
  have "day_number y1 m1 d1 < day_number y2 m2 d2"
    using assms(2-4) by (rule day_number_mono)
  then show ?thesis
    by (simp add: julian_day_day_number [OF assms(1) m(1)] julian_day_day_number [OF y2 m(2)])
qed

theorem julian_day_strictly_monotonic_witness:
  "(1::int) \<le> 727 \<and> valid_date 727 2 28 \<and> valid_date 727 3 1
   \<and> date_before (727, 2, 28) (727, 3, 1) \<and> julian_day 727 2 28 < julian_day 727 3 1"
proof -
  have a: "(1::int) \<le> 727" by simp
  have b: "valid_date 727 2 28" by (simp add: valid_date_def days_in_month_def is_leap_def)
  have c: "valid_date 727 3 1" by (simp add: valid_date_def days_in_month_def)
  have d: "date_before (727, 2, 28) (727, 3, 1)" by (simp add: date_before_def)
  from julian_day_strictly_monotonic [OF a b c d] a b c d show ?thesis by simp
qed

text \<open>
  Claim C8, as stated, covers every year. \<^verbatim>\<open>int\<close> truncates towards zero, so for a
  negative shifted year the century terms are not the floors the conversion needs: 28
  February and 1 March of the year \<open>-99\<close> get the same Julian Day.
\<close>

theorem julian_day_not_monotonic_before_year_1:
  "valid_date (- 99) 2 28 \<and> valid_date (- 99) 3 1 \<and> date_before (- 99, 2, 28) (- 99, 3, 1)
   \<and> \<not> julian_day (- 99) 2 28 < julian_day (- 99) 3 1"
  by (simp add: valid_date_def days_in_month_def is_leap_def date_before_def julian_day_def py_int_def)

end
